theory Spec2Isabelle
  imports Main
begin

section \<open>The templer control script: data\<close>

text \<open>
  The script \<^verbatim>\<open>templer/core/control_script.py\<close> is Python 2. Its exceptions are values of
  \<open>error\<close>: \<^verbatim>\<open>_process_args\<close> raises \<^verbatim>\<open>SyntaxError\<close> for a missing template name, for a token it
  cannot classify and for the \<^verbatim>\<open>svn-repository\<close> key, and the tuple unpacking of
  \<^verbatim>\<open>arg.split('=')\<close> raises \<^verbatim>\<open>ValueError\<close>; \<^verbatim>\<open>_checkdots\<close> raises \<^verbatim>\<open>ValueError\<close>. String
  formatting with \<^verbatim>\<open>%\<close> raises \<^verbatim>\<open>TypeError\<close> or \<^verbatim>\<open>ValueError\<close> on a format that does not fit
  its argument.
\<close>

datatype error = SyntaxError string | ValueError string | TypeError string

text \<open>
  A \<^verbatim>\<open>Runner\<close> carries its script name and its table of texts, both set by its
  constructor. The parser reads them in one expression only,
  \<^verbatim>\<open>self.texts['svn_warning'] % self.name\<close>, and the operator \<^verbatim>\<open>%\<close> is the interpreter's, not
  code of the script. A runner is therefore given by what this expression evaluates to:
  the formatted text (\<open>Inr\<close>), or the exception the formatting raises (\<open>Inl\<close>) when the
  text put into \<^verbatim>\<open>texts\<close> does not take one string argument.
\<close>

record runner =
  svn_message :: "error + string"

text \<open>
  A template is an object of the generator; the script reads its optional attribute
  \<^verbatim>\<open>ndots\<close> with \<^verbatim>\<open>getattr(template, 'ndots', None)\<close>.
\<close>

record template =
  ndots :: "int option"

section \<open>String primitives of Python used by the script\<close>

text \<open>\<^verbatim>\<open>s.find(c)\<close>: the index of the first occurrence of the character, or -1.\<close>

primrec str_find :: "string \<Rightarrow> char \<Rightarrow> int" where
  "str_find [] c = - 1"
| "str_find (x # xs) c =
     (if x = c then 0
      else (let i = str_find xs c in if i = - 1 then - 1 else i + 1))"

text \<open>\<^verbatim>\<open>s.split(c)\<close>: the pieces between all occurrences of the separator character.\<close>

primrec str_split :: "string \<Rightarrow> char \<Rightarrow> string list" where
  "str_split [] c = [[]]"
| "str_split (x # xs) c =
     (if x = c then [] # str_split xs c
      else (case str_split xs c of
              [] \<Rightarrow> [[x]]
            | p # ps \<Rightarrow> (x # p) # ps))"

text \<open>\<^verbatim>\<open>s.count(c)\<close> for a one-character argument.\<close>

definition str_count :: "string \<Rightarrow> char \<Rightarrow> nat" where
  "str_count s c = length (filter (\<lambda>x. x = c) s)"

fun starts_with :: "string \<Rightarrow> string \<Rightarrow> bool" where
  "starts_with s [] = True"
| "starts_with [] (p # ps) = False"
| "starts_with (x # xs) (p # ps) = (x = p \<and> starts_with xs ps)"

text \<open>\<^verbatim>\<open>sub in s\<close>: substring test.\<close>

fun str_contains :: "string \<Rightarrow> string \<Rightarrow> bool" where
  "str_contains [] sub = (sub = [])"
| "str_contains (x # xs) sub = (starts_with (x # xs) sub \<or> str_contains xs sub)"

text \<open>Truth value of \<^verbatim>\<open>output_name\<close>: \<^verbatim>\<open>None\<close> and the empty string are false.\<close>

definition truthy :: "string option \<Rightarrow> bool" where
  "truthy v = (case v of None \<Rightarrow> False | Some s \<Rightarrow> s \<noteq> [])"

section \<open>\<^verbatim>\<open>Runner._process_args\<close>\<close>

text \<open>
  The statement \<^verbatim>\<open>raise SyntaxError(self.texts['svn_warning'] % self.name)\<close>: the
  \<^verbatim>\<open>SyntaxError\<close> with the formatted text, or the exception of the formatting itself.
\<close>

definition svn_raise :: "runner \<Rightarrow> error" where
  "svn_raise r = (case svn_message r of Inl e \<Rightarrow> e | Inr msg \<Rightarrow> SyntaxError msg)"

text \<open>
  The loop \<^verbatim>\<open>for arg in args\<close> with its two variables \<^verbatim>\<open>output_name\<close> and \<^verbatim>\<open>others\<close>
  (a dict). A raise ends the loop with \<open>Inl\<close>.
\<close>

fun process_loop ::
  "runner \<Rightarrow> string option \<Rightarrow> (string \<rightharpoonup> string) \<Rightarrow> string list
     \<Rightarrow> error + (string option \<times> (string \<rightharpoonup> string))" where
  "process_loop r output_name others [] = Inr (output_name, others)"
| "process_loop r output_name others (arg # args) =
     (let eq_index = str_find arg CHR ''='' in
      if eq_index = - 1 \<and> \<not> truthy output_name then
        process_loop r (Some arg) others args
      else if eq_index > 0 then
        (case str_split arg CHR ''='' of
           [key, val] \<Rightarrow>
             if str_contains key ''svn-repository''
             then Inl (svn_raise r)
             else process_loop r output_name (others(key \<mapsto> val)) args
         | _ \<Rightarrow> Inl (ValueError ''too many values to unpack''))
      else Inl (SyntaxError arg))"

text \<open>
  \<^verbatim>\<open>_process_args(self, args)\<close>. The list \<^verbatim>\<open>args\<close> is the caller's object and
  \<^verbatim>\<open>args.pop(0)\<close> changes it in place, so the model returns the list as the caller
  finds it after the call (first component) beside the value returned or the exception
  raised (second component). On the empty list \<^verbatim>\<open>pop\<close> raises \<^verbatim>\<open>IndexError\<close>, which the
  method turns into a \<^verbatim>\<open>SyntaxError\<close>.
\<close>

definition process_args ::
  "runner \<Rightarrow> string list
     \<Rightarrow> string list \<times> (error + (string \<times> string option \<times> (string \<rightharpoonup> string)))" where
  "process_args r args =
     (case args of
        [] \<Rightarrow> ([], Inl (SyntaxError ''No template name provided''))
      | template_name # rest \<Rightarrow>
          (rest,
           case process_loop r None Map.empty rest of
             Inl e \<Rightarrow> Inl e
           | Inr (output_name, others) \<Rightarrow> Inr (template_name, output_name, others)))"

section \<open>\<^verbatim>\<open>Runner._checkdots\<close>\<close>

text \<open>
  The body counts the dots of the name and raises above five. It reads neither the
  template nor the parts of the name.
\<close>

definition checkdots :: "template \<Rightarrow> string \<Rightarrow> error + unit" where
  "checkdots template nm =
     (let cdots = str_count nm CHR ''.'' in
      if cdots > 5
      then Inl (ValueError ''Five dots should be more than enough, no black hole please'')
      else Inr ())"

section \<open>Name resolution in \<^verbatim>\<open>Runner.__call__\<close>\<close>

text \<open>
  What the block \<^verbatim>\<open>if not short_circuit: ...\<close> of \<^verbatim>\<open>__call__\<close> ends with: control goes on to
  the generator with an output name, an exception leaves \<^verbatim>\<open>__call__\<close>, the process exits
  with a code, or the prompt waits for an answer that never comes.
\<close>

datatype outcome =
    Proceed "string option"
  | Raised error
  | Exited int
  | AwaitingInput

text \<open>
  The loop \<^verbatim>\<open>while True\<close> that prompts for a project name; the operator's answers to
  \<^verbatim>\<open>command.challenge\<close> are a list. The \<^verbatim>\<open>try\<close> body exits on \<^verbatim>\<open>q\<close>, the \<^verbatim>\<open>except\<close>
  clause prints and re-raises, the \<^verbatim>\<open>else\<close> clause breaks: no path of the body reaches a
  second iteration, so only the first answer is read.
\<close>

fun prompt_loop :: "template \<Rightarrow> string list \<Rightarrow> outcome" where
  "prompt_loop template [] = AwaitingInput"
| "prompt_loop template (output_name # answers) =
     (if output_name = ''q'' then Exited 0
      else (case checkdots template output_name of
              Inl e \<Rightarrow> Raised e
            | Inr u \<Rightarrow> Proceed (Some output_name)))"

text \<open>
  \<^verbatim>\<open>argv\<close> is the list \<^verbatim>\<open>_process_args\<close> has already popped; \<^verbatim>\<open>--list-variables\<close> in it
  short-circuits the block and clears the output name.
\<close>

definition name_resolution ::
  "string list \<Rightarrow> template \<Rightarrow> string option \<Rightarrow> string list \<Rightarrow> outcome" where
  "name_resolution argv template output_name answers =
     (if ''--list-variables'' \<in> set argv then Proceed None
      else if truthy output_name then
        (case checkdots template (the output_name) of
           Inl e \<Rightarrow> Raised e
         | Inr u \<Rightarrow> Proceed output_name)
      else prompt_loop template answers)"

text \<open>
  The module's default runner, \<^verbatim>\<open>templer_runner = Runner()\<close>: its name is \<^verbatim>\<open>templer\<close> and
  its text is \<^verbatim>\<open>SVN_WARNING\<close>, whose one directive \<^verbatim>\<open>%s\<close> takes the name.
\<close>

definition svn_warning_templer :: string where
  "svn_warning_templer =
     CHR 0x0A # ''For a number of reasons, the --svn-repository argument is not supported''
     @ CHR 0x0A # ''with the templer script. Try --help for more information.''
     @ [CHR 0x0A]"

definition templer_runner :: runner where
  "templer_runner = \<lparr>svn_message = Inr svn_warning_templer\<rparr>"

section \<open>The naming rule the name check is documented with\<close>

text \<open>
  The docstring of \<^verbatim>\<open>_checkdots\<close> announces that each part of the name is checked to be a
  legal Python identifier, and the module keeps the message \<^verbatim>\<open>ID_WARNING\<close> for it; the body
  has no such test. The rule is written down here, in the words of the specification (a
  letter or an underscore first, then letters, digits and underscores; the parts are what
  stands between the dots), only to state properties of \<open>checkdots\<close> against it. These
  two definitions are not part of the program.
\<close>

definition ident_start :: "char \<Rightarrow> bool" where
  "ident_start c =
     (let n = (of_char c :: nat) in
      c = CHR ''_'' \<or> (65 \<le> n \<and> n \<le> 90) \<or> (97 \<le> n \<and> n \<le> 122))"

definition ident_char :: "char \<Rightarrow> bool" where
  "ident_char c =
     (let n = (of_char c :: nat) in ident_start c \<or> (48 \<le> n \<and> n \<le> 57))"

definition spec_legal_identifier :: "string \<Rightarrow> bool" where
  "spec_legal_identifier s =
     (case s of [] \<Rightarrow> False | c # cs \<Rightarrow> ident_start c \<and> list_all ident_char cs)"

definition spec_segments :: "string \<Rightarrow> string list" where
  "spec_segments nm = str_split nm CHR ''.''"

section \<open>The configuration resolver\<close>

text \<open>
  The control script hands the command-line options to the generator as they are; the
  merge with the defaults file \<^verbatim>\<open>.zopeskel\<close> is done by the template base class in
  \<^verbatim>\<open>templer/core/base.py\<close>, which is not among the files at hand. Every definition of this
  section is therefore written from the specification (its sections 3 and 4.3).
\<close>

text \<open>Modelled from the spec: the two errors of interpolation (the resolver's code in
  \<^verbatim>\<open>templer/core/base.py\<close> is missing), \<^verbatim>\<open>CircularReferenceError\<close> naming the cycle and
  \<^verbatim>\<open>UnknownVariableError\<close> naming the missing key.\<close>

datatype resolve_error = CircularReferenceError "string list" | UnknownVariableError string

text \<open>Modelled from the spec: the \<^verbatim>\<open>ConfigStore\<close> (its loader is missing), a
  \<^verbatim>\<open>DEFAULT\<close> section and the template-named sections, each a list of key/value lines.\<close>

record config_store =
  default_section :: "(string \<times> string) list"
  sections :: "(string \<times> (string \<times> string) list) list"

text \<open>Modelled from the spec: a value is read as literal characters and placeholders
  \<^verbatim>\<open>%(key)s\<close> (the interpolation code is missing).\<close>

datatype segment = Lit char | Ref string

text \<open>Modelled from the spec: the key of a placeholder, read after its opening
  \<^verbatim>\<open>%(\<close> up to the closing \<^verbatim>\<open>)s\<close> (part of the missing interpolation code).\<close>

fun key_upto :: "string \<Rightarrow> string option" where
  "key_upto [] = None"
| "key_upto (c # cs) =
     (if c = CHR '')'' then
        (case cs of [] \<Rightarrow> None | d # ds \<Rightarrow> if d = CHR ''s'' then Some [] else None)
      else map_option ((#) c) (key_upto cs))"

text \<open>Modelled from the spec: whether a placeholder \<^verbatim>\<open>%(key)s\<close> starts the string, and
  its key (part of the missing interpolation code).\<close>

definition placeholder :: "string \<Rightarrow> string option" where
  "placeholder s =
     (case s of
        c # d # rest \<Rightarrow> if c = CHR ''%'' \<and> d = CHR ''('' then key_upto rest else None
      | _ \<Rightarrow> None)"

text \<open>Modelled from the spec: the segments of a value (part of the missing
  interpolation code). The first argument counts the characters of a placeholder still
  to be passed over.\<close>

fun scan :: "nat \<Rightarrow> string \<Rightarrow> segment list" where
  "scan n [] = []"
| "scan (Suc n) (c # cs) = scan n cs"
| "scan 0 (c # cs) =
     (case placeholder (c # cs) of
        Some k \<Rightarrow> Ref k # scan (Suc (Suc (Suc (length k)))) cs
      | None \<Rightarrow> Lit c # scan 0 cs)"

text \<open>Modelled from the spec: the section named after the template, empty when the
  store has none (the store's accessors are missing).\<close>

definition template_section :: "config_store \<Rightarrow> string \<Rightarrow> (string \<times> string) list" where
  "template_section store template_name =
     (case map_of (sections store) template_name of None \<Rightarrow> [] | Some s \<Rightarrow> s)"

text \<open>Modelled from the spec: the values a key can stand for (the merge code is missing),
  the template section's first (marked \<open>True\<close>), then the one of \<^verbatim>\<open>DEFAULT\<close>: the template
  section wins for a key both have, and \<^verbatim>\<open>DEFAULT\<close> is what a key falls back to.\<close>

definition candidates :: "config_store \<Rightarrow> string \<Rightarrow> string \<Rightarrow> (bool \<times> string) list" where
  "candidates store template_name k =
     (case map_of (template_section store template_name) k of
        None \<Rightarrow> [] | Some v \<Rightarrow> [(True, v)])
     @ (case map_of (default_section store) k of
        None \<Rightarrow> [] | Some v \<Rightarrow> [(False, v)])"

text \<open>Modelled from the spec: the entries of the store a resolution can visit, a key
  with its layer (used for the termination of the missing interpolation code's model).\<close>

definition slots :: "config_store \<Rightarrow> string \<Rightarrow> (string \<times> bool) set" where
  "slots store template_name =
     (\<lambda>k. (k, True)) ` fst ` set (template_section store template_name)
     \<union> (\<lambda>k. (k, False)) ` fst ` set (default_section store)"

lemma finite_slots: "finite (slots store template_name)"
  by (simp add: slots_def)

lemma map_of_key: "map_of xs k = Some v \<Longrightarrow> k \<in> fst ` set xs"
  by (metis domI dom_map_of_conv_image_fst)

lemma candidates_slots:
  assumes "(l, v) \<in> set (candidates store template_name k)"
  shows "(k, l) \<in> slots store template_name"
proof (cases l)
  case True
  with assms have "map_of (template_section store template_name) k = Some v"
    by (auto simp: candidates_def split: option.splits)
  from map_of_key [OF this] True show ?thesis by (simp add: slots_def)
next
  case False
  with assms have "map_of (default_section store) k = Some v"
    by (auto simp: candidates_def split: option.splits)
  from map_of_key [OF this] False show ?thesis by (simp add: slots_def)
qed

text \<open>Modelled from the spec: interpolation of a value (the code is missing). A
  placeholder is replaced by the interpolated value of its key, taken from the first
  layer not already being resolved: inside the template section's value of a key, a
  reference to that key is the \<^verbatim>\<open>DEFAULT\<close> value (scenario C of the specification). A key
  in no layer is an \<^verbatim>\<open>UnknownVariableError\<close>; a key whose layers are all being resolved
  closes a cycle, a \<^verbatim>\<open>CircularReferenceError\<close> with the keys of the cycle. The stack holds
  the entries being resolved.\<close>

function expand ::
  "config_store \<Rightarrow> string \<Rightarrow> (string \<times> bool) list \<Rightarrow> segment list
     \<Rightarrow> resolve_error + string" where
  "expand store template_name stack [] = Inr []"
| "expand store template_name stack (Lit c # segs) =
     (case expand store template_name stack segs of
        Inl e \<Rightarrow> Inl e
      | Inr s \<Rightarrow> Inr (c # s))"
| "expand store template_name stack (Ref k # segs) =
     (case candidates store template_name k of
        [] \<Rightarrow> Inl (UnknownVariableError k)
      | cand # cands \<Rightarrow>
          (case filter (\<lambda>(l, v). (k, l) \<notin> set stack) (cand # cands) of
             [] \<Rightarrow> Inl (CircularReferenceError (rev (k # map fst stack)))
           | (l, v) # rest \<Rightarrow>
               (case expand store template_name ((k, l) # stack) (scan 0 v) of
                  Inl e \<Rightarrow> Inl e
                | Inr x \<Rightarrow>
                    (case expand store template_name stack segs of
                       Inl e \<Rightarrow> Inl e
                     | Inr s \<Rightarrow> Inr (x @ s)))))"
  by pat_completeness auto

termination
proof (relation "inv_image (less_than <*lex*> less_than)
    (\<lambda>(store, template_name, stack, segs).
       (card (slots store template_name - set stack), length segs))", goal_cases)
  case 1
  show ?case by (intro wf_inv_image wf_lex_prod wf_less_than)
next
  case (2 store template_name stack c segs)
  show ?case by simp
next
  case (3 store template_name stack k segs cand cands x y l v)
  let ?P = "\<lambda>(l, v). (k, l) \<notin> set stack"
  have "(l, v) \<in> set ((l, v) # y)" by simp
  with 3(2,3) have "(l, v) \<in> set (filter ?P (cand # cands))"
    by (simp only:)
  then have "(l, v) \<in> set (cand # cands) \<and> ?P (l, v)"
    by (simp only: set_filter mem_Collect_eq)
  then have mem: "(l, v) \<in> set (cand # cands)" and fresh: "(k, l) \<notin> set stack"
    by simp_all
  from mem 3(1) have "(k, l) \<in> slots store template_name"
    by (auto intro: candidates_slots)
  with fresh have "slots store template_name - set ((k, l) # stack)
      \<subset> slots store template_name - set stack"
    by auto
  then have "card (slots store template_name - set ((k, l) # stack))
      < card (slots store template_name - set stack)"
    by (intro psubset_card_mono) (simp_all add: finite_slots)
  then show ?case by simp
next
  case 4
  then show ?case by simp
qed

text \<open>Modelled from the spec: the keys of the merged view (the merge code is missing),
  those of the template's section and those of \<^verbatim>\<open>DEFAULT\<close>.\<close>

definition merged_keys :: "config_store \<Rightarrow> string \<Rightarrow> string list" where
  "merged_keys store template_name =
     remdups (map fst (template_section store template_name) @ map fst (default_section store))"

text \<open>Modelled from the spec: steps 1 and 2 of \<^verbatim>\<open>resolve_for\<close> (the code is missing):
  every key of the merged view with its value fully interpolated; the first error ends
  the resolution.\<close>

fun interpolate_keys ::
  "config_store \<Rightarrow> string \<Rightarrow> string list \<Rightarrow> resolve_error + (string \<rightharpoonup> string)" where
  "interpolate_keys store template_name [] = Inr Map.empty"
| "interpolate_keys store template_name (k # ks) =
     (case expand store template_name [] [Ref k] of
        Inl e \<Rightarrow> Inl e
      | Inr v \<Rightarrow>
          (case interpolate_keys store template_name ks of
             Inl e \<Rightarrow> Inl e
           | Inr m \<Rightarrow> Inr (m(k \<mapsto> v))))"

text \<open>Modelled from the spec: \<^verbatim>\<open>resolve_for(store, template_name, cli_overrides)\<close> (the
  code is missing): the interpolated merged view, with the command-line overrides applied
  last.\<close>

definition resolve_for ::
  "config_store \<Rightarrow> string \<Rightarrow> (string \<rightharpoonup> string) \<Rightarrow> resolve_error + (string \<rightharpoonup> string)" where
  "resolve_for store template_name cli_overrides =
     (case interpolate_keys store template_name (merged_keys store template_name) of
        Inl e \<Rightarrow> Inl e
      | Inr m \<Rightarrow> Inr (m ++ cli_overrides))"

text \<open>The store of the specification's scenario C.\<close>

definition scenario_store :: config_store where
  "scenario_store =
     \<lparr>default_section = [(''license_name'', ''GPL''), (''keywords'', ''base'')],
      sections = [(''plone3_theme'',
         [(''license_name'', ''BSD''), (''keywords'', ''%(keywords)s extra'')])]\<rparr>"

section \<open>Facts about the string primitives and the argument loop\<close>

lemma str_find_ge: "- 1 \<le> str_find s c"
  by (induction s) (auto simp: Let_def)

lemma str_find_absent: "(str_find s c = - 1) = (c \<notin> set s)"
proof (induction s)
  case Nil
  show ?case by simp
next
  case (Cons x xs)
  have "- 1 \<le> str_find xs c" by (rule str_find_ge)
  with Cons show ?case by (auto simp: Let_def)
qed

lemma str_find_key: "c \<notin> set k \<Longrightarrow> str_find (k @ c # v) c = int (length k)"
proof (induction k)
  case Nil
  show ?case by simp
next
  case (Cons x xs)
  then show ?case by (auto simp: Let_def)
qed

lemma str_split_nonempty: "str_split s c \<noteq> []"
  by (induction s) (auto split: list.splits)

lemma str_split_length: "length (str_split s c) = Suc (str_count s c)"
  by (induction s) (auto simp: str_count_def split: list.splits)

lemma str_split_single: "c \<notin> set v \<Longrightarrow> str_split v c = [v]"
  by (induction v) auto

lemma str_split_key: "c \<notin> set k \<Longrightarrow> str_split (k @ c # v) c = k # str_split v c"
  by (induction k) auto

lemma str_count_zero: "(str_count s c = 0) = (c \<notin> set s)"
  by (induction s) (auto simp: str_count_def)

lemma str_split_single_iff: "(str_split v c = [w]) = (c \<notin> set v \<and> w = v)"
proof
  assume a: "str_split v c = [w]"
  have "length (str_split v c) = Suc (str_count v c)" by (rule str_split_length)
  with a have "str_count v c = 0" by simp
  then have n: "c \<notin> set v" by (simp add: str_count_zero)
  from str_split_single [OF n] a show "c \<notin> set v \<and> w = v" using n by simp
next
  assume "c \<notin> set v \<and> w = v"
  then show "str_split v c = [w]" by (simp add: str_split_single)
qed

lemma str_split_pair: "str_split s c = [k, v] \<Longrightarrow> s = k @ c # v \<and> c \<notin> set k \<and> c \<notin> set v"
proof (induction s arbitrary: k)
  case Nil
  then show ?case by simp
next
  case (Cons x xs)
  show ?case
  proof (cases "x = c")
    case True
    with Cons.prems have "k = []" and "str_split xs c = [v]" by auto
    then show ?thesis using True by (simp add: str_split_single_iff)
  next
    case False
    obtain p ps where sp: "str_split xs c = p # ps"
      using str_split_nonempty [of xs c] by (cases "str_split xs c") auto
    with Cons.prems False have k: "k = x # p" and "ps = [v]" by auto
    with sp have "str_split xs c = [p, v]" by simp
    from Cons.IH [OF this] show ?thesis using k False by simp
  qed
qed

lemma process_loop_append:
  "process_loop r out others (pre @ rest) =
     (case process_loop r out others pre of
        Inl e \<Rightarrow> Inl e
      | Inr (out', others') \<Rightarrow> process_loop r out' others' rest)"
proof (induction pre arbitrary: out others)
  case Nil
  show ?case by simp
next
  case (Cons a pre)
  show ?case
    by (auto simp: Let_def Cons.IH fun_upd_def split: list.splits)
qed

lemma process_loop_truthy:
  "process_loop r out others xs = Inr (out', others') \<Longrightarrow> truthy out \<Longrightarrow> out' = out"
proof (induction xs arbitrary: others)
  case Nil
  then show ?case by simp
next
  case (Cons a xs)
  then show ?case
    by (auto simp: Let_def split: if_splits list.splits)
qed

lemma process_loop_bare:
  "CHR ''='' \<notin> set b \<Longrightarrow> truthy out \<Longrightarrow>
   process_loop r out others (b # post) = Inl (SyntaxError b)"
proof -
  assume "CHR ''='' \<notin> set b" and t: "truthy out"
  then have "str_find b CHR ''='' = - 1" by (simp add: str_find_absent)
  with t show ?thesis by simp
qed

lemma process_loop_kv:
  assumes "key \<noteq> []" and "CHR ''='' \<notin> set key"
  shows "process_loop r out others ((key @ CHR ''='' # val) # post) =
     (if CHR ''='' \<in> set val then Inl (ValueError ''too many values to unpack'')
      else if str_contains key ''svn-repository''
      then Inl (svn_raise r)
      else process_loop r out (others(key \<mapsto> val)) post)"
proof -
  have f: "str_find (key @ CHR ''='' # val) CHR ''='' = int (length key)"
    using assms(2) by (rule str_find_key)
  have pos: "0 < int (length key)" using assms(1) by simp
  have sp: "str_split (key @ CHR ''='' # val) CHR ''='' = key # str_split val CHR ''=''"
    using assms(2) by (rule str_split_key)
  show ?thesis
  proof (cases "CHR ''='' \<in> set val")
    case True
    have "length (str_split val CHR ''='') \<noteq> 1"
      using True str_split_single_iff [of val "CHR ''=''"]
      by (cases "str_split val CHR ''=''") (auto simp: str_split_nonempty)
    then obtain a b cs where "str_split val CHR ''='' = a # b # cs"
      using str_split_nonempty [of val "CHR ''=''"]
      by (cases "str_split val CHR ''=''"; cases "tl (str_split val CHR ''='')") auto
    then show ?thesis using True f pos sp by (simp add: Let_def del: process_loop.simps(2)) (simp add: Let_def)
  next
    case False
    then have "str_split val CHR ''='' = [val]" by (rule str_split_single)
    then show ?thesis using False f pos sp by (simp add: Let_def)
  qed
qed

lemma starts_with_append: "starts_with (p @ s) p"
  by (induction p) auto

lemma process_loop_keeps:
  "process_loop r out m post = Inr (out', m') \<Longrightarrow>
   \<forall>p \<in> set post. \<not> starts_with p (key @ ''='') \<Longrightarrow> m' key = m key"
proof (induction post arbitrary: out m)
  case Nil
  then show ?case by simp
next
  case (Cons a post)
  let ?i = "str_find a CHR ''=''"
  from Cons.prems(2) have na: "\<not> starts_with a (key @ ''='')"
    and rest: "\<forall>p \<in> set post. \<not> starts_with p (key @ ''='')" by simp_all
  show ?case
  proof (cases "?i = - 1 \<and> \<not> truthy out")
    case True
    with Cons.prems(1) have "process_loop r (Some a) m post = Inr (out', m')"
      by (simp add: Let_def)
    from Cons.IH [OF this rest] show ?thesis .
  next
    case False
    with Cons.prems(1) have pos: "0 < ?i"
      by (auto simp: Let_def split: if_splits)
    from False pos Cons.prems(1) obtain k v where sp: "str_split a CHR ''='' = [k, v]"
      and nx: "process_loop r out (m(k \<mapsto> v)) post = Inr (out', m')"
      by (auto simp: Let_def split: list.splits if_splits)
    from str_split_pair [OF sp] have a: "a = k @ CHR ''='' # v" by simp
    have "k \<noteq> key"
    proof
      assume "k = key"
      with a have "a = (key @ ''='') @ v" by simp
      then have "starts_with a (key @ ''='')" by (simp only: starts_with_append)
      with na show False ..
    qed
    with Cons.IH [OF nx rest] show ?thesis by simp
  qed
qed

declare process_loop.simps(2) [simp del]

section \<open>The name check\<close>

text \<open>
  C1. The specification wants every dot-separated part of the name to be a legal
  identifier and \<^verbatim>\<open>_checkdots\<close> to fail on a part that is not, the empty part of
  \<^verbatim>\<open>foo..bar\<close> included. The body has no such test: \<^verbatim>\<open>foo..bar\<close>, whose middle part is
  empty, is accepted, here for a template that expects two dots.
\<close>

theorem checkdots_accepts_empty_segment:
  "spec_segments ''foo..bar'' = [''foo'', [], ''bar''] \<and>
   spec_legal_identifier [] = False \<and>
   checkdots \<lparr>ndots = Some 2\<rparr> ''foo..bar'' = Inr ()"
  by (simp add: spec_segments_def spec_legal_identifier_def checkdots_def str_count_def)

text \<open>
  C2. The specification wants \<^verbatim>\<open>_checkdots\<close> to fail when the number of dots of the name
  differs from the template's \<^verbatim>\<open>ndots\<close>, and the docstring announces that the expected
  number of namespaces is validated. The body never reads the template: \<^verbatim>\<open>foo.bar\<close>, with
  one dot, is accepted for a template with \<^verbatim>\<open>ndots = 0\<close>, and \<^verbatim>\<open>foo\<close>, with none, for a
  template with \<^verbatim>\<open>ndots = 1\<close>.
\<close>

theorem checkdots_accepts_depth_mismatch:
  "str_count ''foo.bar'' CHR ''.'' = 1 \<and>
   checkdots \<lparr>ndots = Some 0\<rparr> ''foo.bar'' = Inr () \<and>
   str_count ''foo'' CHR ''.'' = 0 \<and>
   checkdots \<lparr>ndots = Some 1\<rparr> ''foo'' = Inr ()"
  by (simp add: checkdots_def str_count_def)

section \<open>The prompt for a project name\<close>

text \<open>
  C3. The specification wants the prompt to come back after a name that fails the check.
  In the code the handler re-raises: with no output name on the command line and the
  answers \<^verbatim>\<open>a.b.c.d.e.f.g\<close> and then \<^verbatim>\<open>ok\<close>, the first answer ends \<^verbatim>\<open>__call__\<close> with the
  \<^verbatim>\<open>ValueError\<close> and the second is never read.
\<close>

theorem name_resolution_raises_on_invalid_answer:
  "name_resolution [] \<lparr>ndots = None\<rparr> None [''a.b.c.d.e.f.g'', ''ok''] =
     Raised (ValueError ''Five dots should be more than enough, no black hole please'')"
  by (simp add: name_resolution_def truthy_def checkdots_def str_count_def)

section \<open>Command-line overrides in the resolved variables\<close>

text \<open>
  C4. Whenever \<^verbatim>\<open>resolve_for\<close> yields the resolved variables, every key of the
  command-line overrides has there the value the command line gave it, whatever the
  \<^verbatim>\<open>DEFAULT\<close> section and the template's section say.
\<close>

theorem resolve_for_cli_wins:
  "resolve_for store template_name cli_overrides = Inr resolved \<Longrightarrow>
   cli_overrides k = Some v \<Longrightarrow> resolved k = Some v"
  by (auto simp: resolve_for_def split: sum.splits)

lemma scenario_resolved:
  "resolve_for scenario_store ''plone3_theme'' [''license_name'' \<mapsto> ''MIT''] =
     Inr [''keywords'' \<mapsto> ''base extra'', ''license_name'' \<mapsto> ''MIT'']"
  by (simp add: resolve_for_def merged_keys_def template_section_def scenario_store_def
        candidates_def placeholder_def)

theorem resolve_for_cli_wins_witness:
  "projr (resolve_for scenario_store ''plone3_theme'' [''license_name'' \<mapsto> ''MIT''])
     ''license_name'' = Some ''MIT''"
proof -
  let ?cli = "[''license_name'' \<mapsto> ''MIT'']"
  obtain resolved where r: "resolve_for scenario_store ''plone3_theme'' ?cli = Inr resolved"
    using scenario_resolved by blast
  have "?cli ''license_name'' = Some ''MIT''" by simp
  from resolve_for_cli_wins [OF r this] r show ?thesis by simp
qed

section \<open>The argument parser\<close>

text \<open>
  C5, as the code has it. \<^verbatim>\<open>_process_args\<close> pops the template name off the list it is
  given: after the call the caller's list is the input without its first token (the empty
  list stays empty). This is its only effect, and equal inputs give equal results.
\<close>

theorem process_args_pops_first:
  "fst (process_args r args) = tl args \<and>
   (args' = args \<longrightarrow> snd (process_args r args') = snd (process_args r args))"
  by (simp add: process_args_def split: list.splits)

theorem process_args_pops_first_witness:
  "fst (process_args templer_runner [''skel'', ''foo.bar'', ''author=me'']) =
     [''foo.bar'', ''author=me'']"
  using process_args_pops_first [of templer_runner "[''skel'', ''foo.bar'', ''author=me'']"]
  by simp

text \<open>
  The statement of C5 fails: the list \<^verbatim>\<open>['skel', 'foo.bar']\<close> is \<^verbatim>\<open>['foo.bar']\<close> after
  the call.
\<close>

theorem process_args_mutates_counterexample:
  "fst (process_args templer_runner [''skel'', ''foo.bar'']) = [''foo.bar''] \<and>
   fst (process_args templer_runner [''skel'', ''foo.bar'']) \<noteq> [''skel'', ''foo.bar'']"
  by (simp add: process_args_def)

text \<open>
  C6, as the code has it. When the tokens after the first hold a non-empty token without
  \<^verbatim>\<open>=\<close> and, later, another token without \<^verbatim>\<open>=\<close>, the parse raises; when the tokens
  before that later token are all accepted, it raises the \<^verbatim>\<open>SyntaxError\<close> that carries that
  later token.
\<close>

theorem process_args_second_bare:
  assumes "CHR ''='' \<notin> set b1" and "b1 \<noteq> []" and "CHR ''='' \<notin> set b2"
  shows "isl (snd (process_args r (t # pre @ b1 # mid @ b2 # post))) \<and>
    (process_loop r None Map.empty (pre @ b1 # mid) = Inr st \<longrightarrow>
       snd (process_args r (t # pre @ b1 # mid @ b2 # post)) = Inl (SyntaxError b2))"
proof -
  have acc: "process_loop r None Map.empty (pre @ b1 # mid @ b2 # post) = Inl (SyntaxError b2)"
    if ok: "process_loop r None Map.empty (pre @ b1 # mid) = Inr (o2, m2)" for o2 m2
  proof -
    from ok obtain o1 m1 where p1: "process_loop r None Map.empty pre = Inr (o1, m1)"
      and p2: "process_loop r o1 m1 (b1 # mid) = Inr (o2, m2)"
      by (auto simp: process_loop_append split: sum.splits)
    have f1: "str_find b1 CHR ''='' = - 1" using assms(1) by (simp add: str_find_absent)
    have nt: "\<not> truthy o1"
    proof
      assume "truthy o1"
      from process_loop_bare [OF assms(1) this] p2 show False by simp
    qed
    with p2 f1 have p3: "process_loop r (Some b1) m1 mid = Inr (o2, m2)"
      by (simp add: process_loop.simps(2))
    have "truthy (Some b1)" using assms(2) by (simp add: truthy_def)
    from process_loop_truthy [OF p3 this] this have "truthy o2" by simp
    from process_loop_bare [OF assms(3) this]
    have "process_loop r o2 m2 (b2 # post) = Inl (SyntaxError b2)" .
    moreover have "pre @ b1 # mid @ b2 # post = (pre @ b1 # mid) @ b2 # post" by simp
    ultimately show ?thesis using ok by (simp only: process_loop_append sum.case prod.case)
  qed
  have "isl (process_loop r None Map.empty (pre @ b1 # mid @ b2 # post))"
  proof (cases "process_loop r None Map.empty (pre @ b1 # mid)")
    case (Inl e)
    have "pre @ b1 # mid @ b2 # post = (pre @ b1 # mid) @ b2 # post" by simp
    then show ?thesis using Inl by (simp only: process_loop_append sum.case sum.disc)
  next
    case (Inr s)
    then show ?thesis using acc [of "fst s" "snd s"] by simp
  qed
  moreover have "process_loop r None Map.empty (pre @ b1 # mid) = Inr st \<Longrightarrow>
      process_loop r None Map.empty (pre @ b1 # mid @ b2 # post) = Inl (SyntaxError b2)"
    using acc [of "fst st" "snd st"] by simp
  ultimately show ?thesis
    by (auto simp: process_args_def split: sum.splits)
qed

theorem process_args_second_bare_witness:
  "snd (process_args templer_runner [''skel'', ''foo'', ''a=1'', ''bar'']) =
     Inl (SyntaxError ''bar'')"
proof -
  have b1: "CHR ''='' \<notin> set ''foo''" and ne: "''foo'' \<noteq> []" and b2: "CHR ''='' \<notin> set ''bar''"
    by simp_all
  have ok: "process_loop templer_runner None Map.empty ([] @ ''foo'' # [''a=1'']) =
      Inr (Some ''foo'', [''a'' \<mapsto> ''1''])"
    by (simp add: process_loop.simps(2) truthy_def)
  from process_args_second_bare [OF b1 ne b2, of templer_runner "''skel''" "[]" "[''a=1'']" "[]"
      "(Some ''foo'', [''a'' \<mapsto> ''1''])"] ok
  show ?thesis by simp
qed

text \<open>
  The statement of C6 fails twice. An empty first bare token leaves \<^verbatim>\<open>output_name\<close>
  false, so \<^verbatim>\<open>['skel', '', 'foo']\<close> parses, with \<^verbatim>\<open>foo\<close> as output name. And an earlier
  token can raise first: \<^verbatim>\<open>['skel', 'a', '--svn-repository=x', 'b']\<close> raises the
  \<^verbatim>\<open>svn-repository\<close> error, not the one that carries \<^verbatim>\<open>b\<close>.
\<close>

theorem process_args_second_bare_counterexample:
  "\<not> isl (snd (process_args templer_runner [''skel'', [], ''foo''])) \<and>
   fst (snd (projr (snd (process_args templer_runner [''skel'', [], ''foo''])))) = Some ''foo'' \<and>
   snd (process_args templer_runner [''skel'', ''a'', ''--svn-repository=x'', ''b'']) =
     Inl (SyntaxError svn_warning_templer) \<and>
   SyntaxError svn_warning_templer \<noteq> SyntaxError ''b''"
  by (simp add: process_args_def process_loop.simps(2) truthy_def templer_runner_def
        svn_raise_def svn_warning_templer_def)

text \<open>
  C7, as the code has it. When a token after the first has the form \<^verbatim>\<open>key=value\<close> with
  \<^verbatim>\<open>svn-repository\<close> inside the key, the parse raises. When the tokens before it are all
  accepted and the value holds no further \<^verbatim>\<open>=\<close>, what it raises is the exception of the
  \<^verbatim>\<open>svn-repository\<close> guard: the \<^verbatim>\<open>SyntaxError\<close> with the formatted \<^verbatim>\<open>svn_warning\<close> text
  whenever the runner's text formats with its name, as the default text does.
\<close>

theorem process_args_svn_repository:
  assumes "CHR ''='' \<notin> set key" and "str_contains key ''svn-repository''"
  shows "isl (snd (process_args r (t # pre @ (key @ CHR ''='' # val) # post))) \<and>
    (CHR ''='' \<notin> set val \<longrightarrow> process_loop r None Map.empty pre = Inr st \<longrightarrow>
       snd (process_args r (t # pre @ (key @ CHR ''='' # val) # post)) = Inl (svn_raise r) \<and>
       (svn_message r = Inr msg \<longrightarrow>
          snd (process_args r (t # pre @ (key @ CHR ''='' # val) # post)) =
            Inl (SyntaxError msg)))"
proof -
  let ?tok = "key @ CHR ''='' # val"
  from assms(2) have ne: "key \<noteq> []" by auto
  have step: "\<And>out others. process_loop r out others (?tok # post) =
      (if CHR ''='' \<in> set val then Inl (ValueError ''too many values to unpack'')
       else Inl (svn_raise r))"
    using assms by (simp add: process_loop_kv [OF ne assms(1)])
  have "isl (process_loop r None Map.empty (pre @ ?tok # post))"
    by (cases "process_loop r None Map.empty pre")
       (auto simp: process_loop_append step)
  moreover have "CHR ''='' \<notin> set val \<Longrightarrow> process_loop r None Map.empty pre = Inr st \<Longrightarrow>
      process_loop r None Map.empty (pre @ ?tok # post) = Inl (svn_raise r)"
    by (cases st) (simp add: process_loop_append step)
  moreover have "svn_message r = Inr msg \<Longrightarrow> svn_raise r = SyntaxError msg"
    by (simp add: svn_raise_def)
  ultimately show ?thesis
    by (auto simp: process_args_def split: sum.splits)
qed

theorem process_args_svn_repository_witness:
  "snd (process_args templer_runner [''skel'', ''foo'', ''--svn-repository=http://x'']) =
     Inl (SyntaxError svn_warning_templer)"
proof -
  have k: "CHR ''='' \<notin> set ''--svn-repository''"
    and s: "str_contains ''--svn-repository'' ''svn-repository''"
    and v: "CHR ''='' \<notin> set ''http://x''"
    by simp_all
  have ok: "process_loop templer_runner None Map.empty [''foo''] = Inr (Some ''foo'', Map.empty)"
    by (simp add: process_loop.simps(2) truthy_def)
  have m: "svn_message templer_runner = Inr svn_warning_templer"
    by (simp add: templer_runner_def)
  from process_args_svn_repository [OF k s, of templer_runner "''skel''" "[''foo'']"
      "''http://x''" "[]" "(Some ''foo'', Map.empty)" svn_warning_templer] v ok m
  show ?thesis by (simp add: svn_raise_def)
qed

text \<open>
  The statement of C7 fails at two places of the sequence. In the first place the token
  is the template name, and the parse succeeds. After a token that starts with \<^verbatim>\<open>=\<close> the
  parse has already raised the \<^verbatim>\<open>SyntaxError\<close> that carries that token.
\<close>

theorem process_args_svn_counterexample:
  "\<not> isl (snd (process_args templer_runner [''--svn-repository=x''])) \<and>
   fst (projr (snd (process_args templer_runner [''--svn-repository=x'']))) =
     ''--svn-repository=x'' \<and>
   snd (process_args templer_runner [''skel'', ''=foo'', ''--svn-repository=x'']) =
     Inl (SyntaxError ''=foo'') \<and>
   SyntaxError ''=foo'' \<noteq> SyntaxError svn_warning_templer"
  by (simp add: process_args_def process_loop.simps(2) truthy_def templer_runner_def
        svn_warning_templer_def)

text \<open>
  C9, as the code has it. A token after the first of the form \<^verbatim>\<open>key=value\<close>, with a
  non-empty key without \<^verbatim>\<open>svn-repository\<close> and no \<^verbatim>\<open>=\<close> in the value, puts \<^verbatim>\<open>key -> value\<close>
  into \<^verbatim>\<open>others\<close> in whatever state the loop reaches it, over any earlier value of the key
  and with no error; and when the parse succeeds, a key has in the overrides the value of
  its last \<^verbatim>\<open>key=value\<close> token.
\<close>

theorem process_args_overrides_last_wins:
  assumes "key \<noteq> []" and "CHR ''='' \<notin> set key"
  shows "(CHR ''='' \<notin> set val \<longrightarrow> \<not> str_contains key ''svn-repository'' \<longrightarrow>
       process_loop r out others ((key @ CHR ''='' # val) # post) =
         process_loop r out (others(key \<mapsto> val)) post) \<and>
    (snd (process_args r (t # pre @ (key @ CHR ''='' # val) # post)) = Inr (t', out', others') \<longrightarrow>
       (\<forall>p \<in> set post. \<not> starts_with p (key @ ''='')) \<longrightarrow>
       others' key = Some val)"
proof -
  let ?tok = "key @ CHR ''='' # val"
  have "others' key = Some val"
    if ok: "snd (process_args r (t # pre @ ?tok # post)) = Inr (t', out', others')"
      and last: "\<forall>p \<in> set post. \<not> starts_with p (key @ ''='')"
  proof -
    from ok have "process_loop r None Map.empty (pre @ ?tok # post) = Inr (out', others')"
      by (auto simp: process_args_def split: sum.splits)
    then obtain o1 m1 where "process_loop r o1 m1 (?tok # post) = Inr (out', others')"
      by (auto simp: process_loop_append split: sum.splits)
    then have "process_loop r o1 (m1(key \<mapsto> val)) post = Inr (out', others')"
      by (simp only: process_loop_kv [OF assms] split: if_splits) simp_all
    from process_loop_keeps [OF this last] show ?thesis by simp
  qed
  then show ?thesis using assms by (simp add: process_loop_kv)
qed

theorem process_args_overrides_last_wins_witness:
  "snd (snd (projr (snd (process_args templer_runner
      [''skel'', ''a=1'', ''a=3'', ''b=2''])))) ''a'' = Some ''3''"
proof -
  have k: "''a'' \<noteq> []" "CHR ''='' \<notin> set ''a''" by simp_all
  have ok: "snd (process_args templer_runner
        (''skel'' # [''a=1''] @ (''a'' @ CHR ''='' # ''3'') # [''b=2''])) =
      Inr (''skel'', None, [''a'' \<mapsto> ''3'', ''b'' \<mapsto> ''2''])"
    by (simp add: process_args_def process_loop.simps(2) truthy_def)
  have last: "\<forall>p \<in> set [''b=2'']. \<not> starts_with p (''a'' @ ''='')" by simp
  from process_args_overrides_last_wins [OF k, of "''3''" templer_runner _ _ "[''b=2'']"
      "''skel''" "[''a=1'']" "''skel''" None "[''a'' \<mapsto> ''3'', ''b'' \<mapsto> ''2'']"] ok last
  have "[''a'' \<mapsto> ''3'', ''b'' \<mapsto> ''2''] ''a'' = Some ''3''" by blast
  with ok show ?thesis by simp
qed

text \<open>
  The statement of C9 fails for a key with \<^verbatim>\<open>svn-repository\<close> in it: the token
  \<^verbatim>\<open>svn-repository=x\<close> has the form \<^verbatim>\<open>key=value\<close> with a non-empty key, and the parse
  raises instead of recording it.
\<close>

theorem process_args_override_counterexample:
  "snd (process_args templer_runner [''skel'', ''svn-repository=x'']) =
     Inl (SyntaxError svn_warning_templer)"
  by (simp add: process_args_def process_loop.simps(2) truthy_def templer_runner_def
        svn_raise_def)

text \<open>
  C10. A token with \<^verbatim>\<open>=\<close> after its first character and a further \<^verbatim>\<open>=\<close> in the value part
  (\<^verbatim>\<open>a=b=c\<close>) makes the unpacking of \<^verbatim>\<open>arg.split('=')\<close> raise \<^verbatim>\<open>ValueError\<close> in whatever
  state the loop reaches it: nothing is added to \<^verbatim>\<open>others\<close> and the error is not the
  \<^verbatim>\<open>SyntaxError\<close> of a malformed argument. So a parse with such a token after the first
  never returns, and it raises this \<^verbatim>\<open>ValueError\<close> when the tokens before it are accepted.
\<close>

theorem process_args_extra_equals:
  assumes "key \<noteq> []" and "CHR ''='' \<notin> set key" and "CHR ''='' \<in> set val"
  shows "process_loop r out others ((key @ CHR ''='' # val) # post) =
       Inl (ValueError ''too many values to unpack'') \<and>
    isl (snd (process_args r (t # pre @ (key @ CHR ''='' # val) # post))) \<and>
    (process_loop r None Map.empty pre = Inr st \<longrightarrow>
       snd (process_args r (t # pre @ (key @ CHR ''='' # val) # post)) =
         Inl (ValueError ''too many values to unpack''))"
proof -
  let ?tok = "key @ CHR ''='' # val"
  have step: "\<And>out others. process_loop r out others (?tok # post) =
      Inl (ValueError ''too many values to unpack'')"
    using assms by (simp add: process_loop_kv)
  have "isl (process_loop r None Map.empty (pre @ ?tok # post))"
    by (cases "process_loop r None Map.empty pre")
       (auto simp: process_loop_append step)
  moreover have "process_loop r None Map.empty pre = Inr st \<Longrightarrow>
      process_loop r None Map.empty (pre @ ?tok # post) =
        Inl (ValueError ''too many values to unpack'')"
    by (cases st) (simp add: process_loop_append step)
  ultimately show ?thesis
    by (auto simp: process_args_def step split: sum.splits)
qed

theorem process_args_extra_equals_witness:
  "snd (process_args templer_runner [''skel'', ''foo'', ''a=b=c'']) =
     Inl (ValueError ''too many values to unpack'')"
proof -
  have k: "''a'' \<noteq> []" "CHR ''='' \<notin> set ''a''" "CHR ''='' \<in> set ''b=c''" by simp_all
  have ok: "process_loop templer_runner None Map.empty [''foo''] = Inr (Some ''foo'', Map.empty)"
    by (simp add: process_loop.simps(2) truthy_def)
  from process_args_extra_equals [OF k, of templer_runner _ _ "[]" "''skel''" "[''foo'']"
      "(Some ''foo'', Map.empty)"] ok
  show ?thesis by simp
qed

section \<open>The dot ceiling of \<^verbatim>\<open>_checkdots\<close>\<close>

text \<open>
  C8. For every candidate name with more than five dots \<^verbatim>\<open>_checkdots\<close> raises, whatever
  the template (whatever its \<^verbatim>\<open>ndots\<close>, present or absent).
\<close>

theorem checkdots_ceiling:
  "5 < str_count nm CHR ''.'' \<Longrightarrow>
   checkdots template nm =
     Inl (ValueError ''Five dots should be more than enough, no black hole please'')"
  by (simp add: checkdots_def)

theorem checkdots_ceiling_witness:
  "5 < str_count ''a.b.c.d.e.f.g'' CHR ''.'' \<and>
   checkdots \<lparr>ndots = Some 6\<rparr> ''a.b.c.d.e.f.g'' =
     Inl (ValueError ''Five dots should be more than enough, no black hole please'')"
proof -
  have h: "5 < str_count ''a.b.c.d.e.f.g'' CHR ''.''"
    by (simp add: str_count_def)
  from h checkdots_ceiling [OF h, of "\<lparr>ndots = Some 6\<rparr>"] show ?thesis
    by simp
qed

end
